theory Spec2Isabelle
  imports Complex_Main
begin

section \<open>Values, exceptions and the store\<close>

text \<open>
  The limiter of \<^verbatim>\<open>test.py\<close> computes with Python floats. They are modelled by the real
  numbers: arithmetic is exact, and the non-finite floats (\<^verbatim>\<open>inf\<close>, \<^verbatim>\<open>nan\<close>) are outside
  the model. The clock \<^verbatim>\<open>time.time()\<close> is read once per call and is the parameter
  \<open>now\<close> of every operation.

  The Redis client is created with \<^verbatim>\<open>decode_responses=True\<close>, so a stored hash field
  is a string. The code observes two things of such a string: whether it is empty (the
  truth test \<^verbatim>\<open>if data[0]\<close>) and what \<^verbatim>\<open>float()\<close> makes of it. \<open>Numeric x\<close> is a
  string that \<^verbatim>\<open>float()\<close> parses to \<open>x\<close> (it is not empty); \<open>NonNumeric s\<close> is the
  string \<open>s\<close>, which \<^verbatim>\<open>float()\<close> rejects with a \<^verbatim>\<open>ValueError\<close> (the empty string is
  one of them). A number written by \<^verbatim>\<open>hset\<close> is read back as the same number.
\<close>

datatype rstr = Numeric real | NonNumeric string

text \<open>
  The exceptions of the Redis client: \<^verbatim>\<open>redis.ConnectionError\<close> is the one
  \<^verbatim>\<open>check_redis_connection\<close> catches; \<open>OtherError\<close> stands for any other subclass of
  \<^verbatim>\<open>Exception\<close> the client raises.
\<close>

datatype redis_exc =
    ConnectionError string
  | TimeoutError string
  | ResponseError string
  | OtherError string

text \<open>
  The exceptions that travel through the limiter. \<open>RateLimitExceeded r h\<close> is the
  HTTP 429 exception of lines 9-12: \<open>r\<close> is the \<^verbatim>\<open>retry_after\<close> the constructor receives
  (it is printed in the detail text), \<open>h\<close> the \<^verbatim>\<open>Retry-After\<close> header, which is only set
  when \<^verbatim>\<open>retry_after\<close> is truthy.
\<close>

datatype exn =
    RateLimitExceeded int "int option"
  | RedisError redis_exc
  | ValueError string
  | ZeroDivisionError
  | PyException string

definition mk_RateLimitExceeded :: "int \<Rightarrow> exn" where
  "mk_RateLimitExceeded retry_after =
     RateLimitExceeded retry_after (if retry_after \<noteq> 0 then Some retry_after else None)"

text \<open>
  One Redis hash with its expiry time (\<open>None\<close>: no expiry set), and the store: the hashes
  by key, and for each command the client issues whether it fails now and with which
  exception. A command that fails has no effect on the hashes. The store expires keys
  on the clock of the caller.
\<close>

record hash_entry =
  hfields :: "string \<rightharpoonup> rstr"
  ttl_at :: "real option"

record store =
  hashes :: "string \<rightharpoonup> hash_entry"
  hmget_exc :: "redis_exc option"
  hset_exc :: "redis_exc option"
  expire_exc :: "redis_exc option"
  ping_exc :: "redis_exc option"

text \<open>The hash stored under a key, if it has not expired.\<close>

definition live :: "store \<Rightarrow> real \<Rightarrow> string \<Rightarrow> hash_entry option" where
  "live st now key =
     (case hashes st key of
        None \<Rightarrow> None
      | Some e \<Rightarrow>
          (case ttl_at e of
             None \<Rightarrow> Some e
           | Some t \<Rightarrow> if t \<le> now then None else Some e))"

text \<open>\<^verbatim>\<open>r.hmget(key, f1, f2)\<close>: the two fields, each \<open>None\<close> when missing. A read.\<close>

definition hmget ::
  "store \<Rightarrow> real \<Rightarrow> string \<Rightarrow> string \<Rightarrow> string \<Rightarrow>
     (redis_exc + (rstr option \<times> rstr option)) \<times> store" where
  "hmget st now key f1 f2 =
     (case hmget_exc st of
        Some e \<Rightarrow> (Inl e, st)
      | None \<Rightarrow>
          (case live st now key of
             None \<Rightarrow> (Inr (None, None), st)
           | Some e \<Rightarrow> (Inr (hfields e f1, hfields e f2), st)))"

text \<open>
  \<^verbatim>\<open>r.hset(key, mapping={...})\<close>: sets the fields of the hash, creating it (without
  expiry) when the key is missing or has expired.
\<close>

definition hset ::
  "store \<Rightarrow> real \<Rightarrow> string \<Rightarrow> (string \<times> real) list \<Rightarrow> (redis_exc + unit) \<times> store" where
  "hset st now key mapping =
     (case hset_exc st of
        Some e \<Rightarrow> (Inl e, st)
      | None \<Rightarrow>
          (let base = (case live st now key of
                         None \<Rightarrow> \<lparr>hfields = Map.empty, ttl_at = None\<rparr>
                       | Some e \<Rightarrow> e);
               fs = foldl (\<lambda>m (f, v). m(f \<mapsto> Numeric v)) (hfields base) mapping
           in (Inr (), st\<lparr>hashes := (hashes st)(key \<mapsto> base\<lparr>hfields := fs\<rparr>)\<rparr>)))"

text \<open>\<^verbatim>\<open>r.expire(key, seconds)\<close>: the key expires \<open>seconds\<close> from now, if it exists.\<close>

definition expire ::
  "store \<Rightarrow> real \<Rightarrow> string \<Rightarrow> real \<Rightarrow> (redis_exc + bool) \<times> store" where
  "expire st now key seconds =
     (case expire_exc st of
        Some e \<Rightarrow> (Inl e, st)
      | None \<Rightarrow>
          (case live st now key of
             None \<Rightarrow> (Inr False, st)
           | Some e \<Rightarrow>
               (Inr True,
                st\<lparr>hashes := (hashes st)(key \<mapsto> e\<lparr>ttl_at := Some (now + seconds)\<rparr>)\<rparr>)))"

text \<open>\<^verbatim>\<open>r.ping()\<close>.\<close>

definition ping :: "store \<Rightarrow> (redis_exc + bool) \<times> store" where
  "ping st = (case ping_exc st of Some e \<Rightarrow> (Inl e, st) | None \<Rightarrow> (Inr True, st))"

section \<open>Python primitives\<close>

text \<open>\<^verbatim>\<open>float(s)\<close> on a stored string.\<close>

fun py_float :: "rstr \<Rightarrow> exn + real" where
  "py_float (Numeric x) = Inr x"
| "py_float (NonNumeric s) = Inl (ValueError s)"

text \<open>
  \<^verbatim>\<open>float(v) if v else d\<close> on a field read by \<^verbatim>\<open>hmget\<close>: \<^verbatim>\<open>None\<close> and the empty string
  are falsy.
\<close>

fun float_or :: "rstr option \<Rightarrow> real \<Rightarrow> exn + real" where
  "float_or None d = Inr d"
| "float_or (Some (Numeric x)) d = Inr x"
| "float_or (Some (NonNumeric s)) d = (if s = [] then Inr d else Inl (ValueError s))"

text \<open>\<^verbatim>\<open>a / b\<close>.\<close>

definition py_div :: "real \<Rightarrow> real \<Rightarrow> exn + real" where
  "py_div a b = (if b = 0 then Inl ZeroDivisionError else Inr (a / b))"

text \<open>\<^verbatim>\<open>int(x)\<close> truncates towards zero.\<close>

definition py_int :: "real \<Rightarrow> int" where
  "py_int x = (if 0 \<le> x then \<lfloor>x\<rfloor> else \<lceil>x\<rceil>)"

text \<open>\<^verbatim>\<open>round(x, 2)\<close>: to the nearest hundredth, a tie to the even one.\<close>

definition py_round2 :: "real \<Rightarrow> real" where
  "py_round2 x =
     (let y = x * 100; f = \<lfloor>y\<rfloor>; d = y - of_int f
      in (if d < 1 / 2 then of_int f
          else if 1 / 2 < d then of_int (f + 1)
          else if even f then of_int f else of_int (f + 1)) / 100)"

section \<open>The token bucket\<close>

record TokenBucket =
  capacity :: real
  refill_rate :: real

text \<open>
  Lines 75-76 and 48-49, the same in \<^verbatim>\<open>allow_request\<close> and \<^verbatim>\<open>get_stats\<close>:
  \<^verbatim>\<open>delta = now - last; min(self.capacity, tokens + delta * self.refill_rate)\<close>.
\<close>

definition refill :: "TokenBucket \<Rightarrow> real \<Rightarrow> real \<Rightarrow> real \<Rightarrow> real" where
  "refill cfg tokens lastv now =
     (let delta = now - lastv in min (capacity cfg) (tokens + delta * refill_rate cfg))"

text \<open>\<^verbatim>\<open>check_redis_connection\<close>, lines 19-26.\<close>

definition check_redis_connection :: "store \<Rightarrow> (exn + bool) \<times> store" where
  "check_redis_connection st =
     (case ping st of
        (Inr _, st1) \<Rightarrow> (Inr True, st1)
      | (Inl (ConnectionError m), st1) \<Rightarrow> (Inl (PyException ''Redis connection failed''), st1)
      | (Inl e, st1) \<Rightarrow> (Inl (RedisError e), st1))"

text \<open>The dictionary \<^verbatim>\<open>get_stats\<close> returns; the two optional keys are absent when new.\<close>

record stats =
  tokens_available :: real
  stat_capacity :: real
  stat_refill_rate :: real
  last_request :: "real option"
  time_since_last :: "real option"
  status :: string

text \<open>\<^verbatim>\<open>get_stats\<close>: the body of its \<^verbatim>\<open>try\<close>, lines 34-58.\<close>

definition get_stats_try ::
  "TokenBucket \<Rightarrow> real \<Rightarrow> string \<Rightarrow> store \<Rightarrow> (exn + stats) \<times> store" where
  "get_stats_try cfg now ip st =
     (let key = ''bucket:'' @ ip in
      case hmget st now key ''tokens'' ''last'' of
        (Inl e, st1) \<Rightarrow> (Inl (RedisError e), st1)
      | (Inr (d0, d1), st1) \<Rightarrow>
          (case d0 of
             None \<Rightarrow>
               (Inr \<lparr>tokens_available = capacity cfg, stat_capacity = capacity cfg,
                     stat_refill_rate = refill_rate cfg, last_request = None,
                     time_since_last = None, status = ''new''\<rparr>, st1)
           | Some v0 \<Rightarrow>
               (case py_float v0 of
                  Inl e \<Rightarrow> (Inl e, st1)
                | Inr tokens \<Rightarrow>
                    (case float_or d1 now of
                       Inl e \<Rightarrow> (Inl e, st1)
                     | Inr lastv \<Rightarrow>
                         (Inr \<lparr>tokens_available = py_round2 (refill cfg tokens lastv now),
                               stat_capacity = capacity cfg,
                               stat_refill_rate = refill_rate cfg,
                               last_request = Some lastv,
                               time_since_last = Some (py_round2 (now - lastv)),
                               status = ''active''\<rparr>, st1)))))"

text \<open>Lines 59-61: every exception is logged and raised again.\<close>

definition get_stats ::
  "TokenBucket \<Rightarrow> real \<Rightarrow> string \<Rightarrow> store \<Rightarrow> (exn + stats) \<times> store" where
  "get_stats cfg now ip st =
     (case get_stats_try cfg now ip st of
        (Inl e, st') \<Rightarrow> (Inl e, st')
      | (Inr s, st') \<Rightarrow> (Inr s, st'))"

text \<open>
  \<^verbatim>\<open>allow_request\<close>, lines 69-76: the read and the refill. The result is the refilled
  token count the decision of line 78 is taken on.
\<close>

definition read_refill ::
  "TokenBucket \<Rightarrow> real \<Rightarrow> string \<Rightarrow> store \<Rightarrow> (exn + real) \<times> store" where
  "read_refill cfg now ip st =
     (let key = ''bucket:'' @ ip in
      case hmget st now key ''tokens'' ''last'' of
        (Inl e, st1) \<Rightarrow> (Inl (RedisError e), st1)
      | (Inr (d0, d1), st1) \<Rightarrow>
          (case float_or d0 (capacity cfg) of
             Inl e \<Rightarrow> (Inl e, st1)
           | Inr tokens \<Rightarrow>
               (case float_or d1 now of
                  Inl e \<Rightarrow> (Inl e, st1)
                | Inr lastv \<Rightarrow> (Inr (refill cfg tokens lastv now), st1))))"

text \<open>The body of the \<^verbatim>\<open>try\<close> of \<^verbatim>\<open>allow_request\<close>, lines 69-95.\<close>

definition allow_request_try ::
  "TokenBucket \<Rightarrow> real \<Rightarrow> string \<Rightarrow> store \<Rightarrow> (exn + bool) \<times> store" where
  "allow_request_try cfg now ip st =
     (let key = ''bucket:'' @ ip in
      case read_refill cfg now ip st of
        (Inl e, st1) \<Rightarrow> (Inl e, st1)
      | (Inr tokens, st1) \<Rightarrow>
          if tokens < 1 then
            (case py_div (1 - tokens) (refill_rate cfg) of
               Inl e \<Rightarrow> (Inl e, st1)
             | Inr q \<Rightarrow> (Inl (mk_RateLimitExceeded (py_int q + 1)), st1))
          else
            (case hset st1 now key [(''tokens'', tokens - 1), (''last'', now)] of
               (Inl e, st2) \<Rightarrow> (Inl (RedisError e), st2)
             | (Inr _, st2) \<Rightarrow>
                 (case expire st2 now key 60 of
                    (Inl e, st3) \<Rightarrow> (Inl (RedisError e), st3)
                  | (Inr _, st3) \<Rightarrow> (Inr True, st3))))"

text \<open>
  Lines 96-101: \<^verbatim>\<open>RateLimitExceeded\<close> is raised again, every other exception is logged
  and the request is allowed.
\<close>

definition allow_request ::
  "TokenBucket \<Rightarrow> real \<Rightarrow> string \<Rightarrow> store \<Rightarrow> (exn + bool) \<times> store" where
  "allow_request cfg now ip st =
     (case allow_request_try cfg now ip st of
        (Inl (RateLimitExceeded r h), st') \<Rightarrow> (Inl (RateLimitExceeded r h), st')
      | (Inl _, st') \<Rightarrow> (Inr True, st')
      | (Inr v, st') \<Rightarrow> (Inr v, st'))"

text \<open>\<open>n\<close> calls of \<^verbatim>\<open>allow_request\<close> one after the other at the same clock reading.\<close>

fun allow_requests ::
  "TokenBucket \<Rightarrow> real \<Rightarrow> string \<Rightarrow> nat \<Rightarrow> store \<Rightarrow> (exn + bool) list \<times> store" where
  "allow_requests cfg now ip 0 st = ([], st)"
| "allow_requests cfg now ip (Suc n) st =
     (case allow_request cfg now ip st of
        (r, st') \<Rightarrow> (case allow_requests cfg now ip n st' of (rs, st'') \<Rightarrow> (r # rs, st'')))"

text \<open>A store that answers every command, with no hash stored.\<close>

definition empty_store :: store where
  "empty_store =
     \<lparr>hashes = Map.empty, hmget_exc = None, hset_exc = None, expire_exc = None,
      ping_exc = None\<rparr>"

text \<open>
  \<^verbatim>\<open>TokenBucket()\<close> as \<^verbatim>\<open>main.py\<close> creates it: the defaults of line 15.
\<close>

definition default_bucket :: TokenBucket where
  "default_bucket = \<lparr>capacity = 10, refill_rate = 1\<rparr>"

text \<open>A bucket hash with the two fields the limiter uses, and a store holding one hash.\<close>

definition bucket_hash :: "rstr \<Rightarrow> rstr \<Rightarrow> real option \<Rightarrow> hash_entry" where
  "bucket_hash t l ttl = \<lparr>hfields = [''tokens'' \<mapsto> t, ''last'' \<mapsto> l], ttl_at = ttl\<rparr>"

definition store_of :: "string \<Rightarrow> hash_entry \<Rightarrow> store" where
  "store_of key h = empty_store\<lparr>hashes := [key \<mapsto> h]\<rparr>"

text \<open>A store that cannot be reached: every command raises \<open>e\<close>.\<close>

definition unreachable :: "redis_exc \<Rightarrow> store" where
  "unreachable e =
     \<lparr>hashes = Map.empty, hmget_exc = Some e, hset_exc = Some e, expire_exc = Some e,
      ping_exc = Some e\<rparr>"

text \<open>The three commands of \<^verbatim>\<open>allow_request\<close> succeed.\<close>

definition healthy :: "store \<Rightarrow> bool" where
  "healthy st \<longleftrightarrow> hmget_exc st = None \<and> hset_exc st = None \<and> expire_exc st = None"

text \<open>
  The store answers, and the live hash of the key holds \<open>t\<close> tokens stamped with the
  clock reading \<open>now\<close>.
\<close>

definition stored :: "store \<Rightarrow> real \<Rightarrow> string \<Rightarrow> real \<Rightarrow> bool" where
  "stored st now key t \<longleftrightarrow>
     healthy st \<and>
     (\<exists>h. live st now key = Some h \<and> hfields h ''tokens'' = Some (Numeric t)
          \<and> hfields h ''last'' = Some (Numeric now))"

section \<open>Reads, parsing and the two outcomes\<close>

text \<open>
  The body of the \<^verbatim>\<open>try\<close> returns nothing but \<^verbatim>\<open>True\<close>, so a call ends in \<^verbatim>\<open>True\<close> or in
  the one exception the handler lets through.
\<close>

lemma allow_request_try_Inr: "allow_request_try cfg now ip st = (Inr v, st') \<Longrightarrow> v"
  by (auto simp: allow_request_try_def Let_def split: prod.splits sum.splits if_splits)

lemma allow_request_cases:
  "fst (allow_request cfg now ip st) = Inr True \<or>
   (\<exists>r h. fst (allow_request cfg now ip st) = Inl (RateLimitExceeded r h))"
proof (cases "allow_request_try cfg now ip st")
  case (Pair r st')
  show ?thesis
  proof (cases r)
    case (Inl e)
    with Pair show ?thesis by (cases e) (simp_all add: allow_request_def)
  next
    case (Inr v)
    with Pair allow_request_try_Inr[of cfg now ip st v st'] show ?thesis
      by (simp add: allow_request_def)
  qed
qed

lemma get_stats_new:
  "hmget_exc st = None \<Longrightarrow> live st now (''bucket:'' @ ip) = None \<Longrightarrow>
   get_stats cfg now ip st =
     (Inr \<lparr>tokens_available = capacity cfg, stat_capacity = capacity cfg,
           stat_refill_rate = refill_rate cfg, last_request = None,
           time_since_last = None, status = ''new''\<rparr>, st)"
  by (simp add: get_stats_def get_stats_try_def hmget_def)

lemma read_refill_fresh:
  "hmget_exc st = None \<Longrightarrow> live st now (''bucket:'' @ ip) = None \<Longrightarrow>
   read_refill cfg now ip st = (Inr (capacity cfg), st)"
  by (simp add: read_refill_def hmget_def refill_def)

lemma read_refill_stored:
  "hmget_exc st = None \<Longrightarrow> live st now (''bucket:'' @ ip) = Some h \<Longrightarrow>
   hfields h ''tokens'' = Some (Numeric t) \<Longrightarrow> hfields h ''last'' = Some (Numeric l) \<Longrightarrow>
   read_refill cfg now ip st = (Inr (refill cfg t l now), st)"
  by (simp add: read_refill_def hmget_def)

lemma write_stored:
  assumes "healthy st"
  shows "\<exists>st2. hset st now key [(''tokens'', t), (''last'', now)] = (Inr (), st2) \<and>
           (\<exists>st3. expire st2 now key 60 = (Inr True, st3) \<and> stored st3 now key t)"
  using assms
  by (auto simp: healthy_def hset_def expire_def live_def stored_def Let_def split: option.splits)

lemma allow_request_allowed:
  assumes "healthy st" and "read_refill cfg now ip st = (Inr t, st)" and "1 \<le> t"
  shows "fst (allow_request cfg now ip st) = Inr True \<and>
         stored (snd (allow_request cfg now ip st)) now (''bucket:'' @ ip) (t - 1)"
proof -
  from write_stored[OF assms(1), of now "''bucket:'' @ ip" "t - 1"]
  obtain st2 st3 where
    w: "hset st now (''bucket:'' @ ip) [(''tokens'', t - 1), (''last'', now)] = (Inr (), st2)"
    and x: "expire st2 now (''bucket:'' @ ip) 60 = (Inr True, st3)"
    and s: "stored st3 now (''bucket:'' @ ip) (t - 1)"
    by blast
  from assms(2,3) w x have "allow_request cfg now ip st = (Inr True, st3)"
    by (simp add: allow_request_def allow_request_try_def)
  with s show ?thesis by simp
qed

lemma allow_request_denied:
  assumes "read_refill cfg now ip st = (Inr t, st)" and "t < 1" and "refill_rate cfg \<noteq> 0"
  shows "allow_request cfg now ip st =
           (Inl (mk_RateLimitExceeded (py_int ((1 - t) / refill_rate cfg) + 1)), st)"
  using assms
  by (simp add: allow_request_def allow_request_try_def py_div_def mk_RateLimitExceeded_def)

lemma read_refill_same_instant:
  assumes "stored st now (''bucket:'' @ ip) t" and "t \<le> capacity cfg"
  shows "read_refill cfg now ip st = (Inr t, st)"
proof -
  from assms(1) obtain h where "hmget_exc st = None"
    and "live st now (''bucket:'' @ ip) = Some h"
    and "hfields h ''tokens'' = Some (Numeric t)"
    and "hfields h ''last'' = Some (Numeric now)"
    by (auto simp: stored_def healthy_def)
  then have "read_refill cfg now ip st = (Inr (refill cfg t now now), st)"
    by (rule read_refill_stored)
  with assms(2) show ?thesis by (simp add: refill_def)
qed

text \<open>
  Calls at one clock reading: the refill adds nothing, each allowed call takes one token,
  and with a refill rate other than zero the call that finds no token left is denied.
\<close>

lemma allow_requests_drain:
  assumes "stored st now (''bucket:'' @ ip) (of_nat n)" and "of_nat n \<le> capacity cfg"
    and "refill_rate cfg \<noteq> 0"
  shows "fst (allow_requests cfg now ip (Suc n) st) =
           replicate n (Inr True) @
           [Inl (mk_RateLimitExceeded (py_int (1 / refill_rate cfg) + 1))]"
  using assms
proof (induction n arbitrary: st)
  case 0
  then have "read_refill cfg now ip st = (Inr 0, st)"
    using read_refill_same_instant[of st now ip 0 cfg] by simp
  from allow_request_denied[OF this _ "0.prems"(3)] show ?case by simp
next
  case (Suc n)
  have rr: "read_refill cfg now ip st = (Inr (of_nat (Suc n)), st)"
    using Suc.prems(1,2) by (rule read_refill_same_instant)
  have h: "healthy st" using Suc.prems(1) by (simp add: stored_def)
  obtain r st' where a: "allow_request cfg now ip st = (r, st')"
    by (cases "allow_request cfg now ip st")
  from allow_request_allowed[OF h rr] a
  have r: "r = Inr True" and s: "stored st' now (''bucket:'' @ ip) (of_nat n)"
    by simp_all
  from Suc.prems(2) have le: "of_nat n \<le> capacity cfg" by simp
  from Suc.IH[OF s le Suc.prems(3)] a r show ?case
    by (simp split: prod.splits)
qed

lemma allow_requests_capacity:
  assumes "healthy st" and "live st now (''bucket:'' @ ip) = None"
    and "capacity cfg = of_nat C" and "refill_rate cfg \<noteq> 0"
  shows "fst (allow_requests cfg now ip (Suc C) st) =
           replicate C (Inr True) @
           [Inl (mk_RateLimitExceeded (py_int (1 / refill_rate cfg) + 1))]"
proof -
  have rr: "read_refill cfg now ip st = (Inr (of_nat C), st)"
    using assms(1,2,3) by (simp add: read_refill_fresh healthy_def)
  show ?thesis
  proof (cases C)
    case 0
    with rr have "read_refill cfg now ip st = (Inr 0, st)" by simp
    from allow_request_denied[OF this _ assms(4)] 0 show ?thesis by simp
  next
    case (Suc n)
    obtain r st' where a: "allow_request cfg now ip st = (r, st')"
      by (cases "allow_request cfg now ip st")
    from allow_request_allowed[OF assms(1) rr] a Suc
    have r: "r = Inr True" and s: "stored st' now (''bucket:'' @ ip) (of_nat n)"
      by simp_all
    have le: "of_nat n \<le> capacity cfg" using assms(3) Suc by simp
    from allow_requests_drain[OF s le assms(4)] a r Suc show ?thesis
      by (simp split: prod.splits)
  qed
qed


lemma float_or_exn: "float_or v d = Inl e \<Longrightarrow> \<exists>s. s \<noteq> [] \<and> v = Some (NonNumeric s) \<and> e = ValueError s"
  by (cases "(v, d)" rule: float_or.cases) (auto split: if_splits)

lemma hmget_store: "hmget st now key f1 f2 = (r, st') \<Longrightarrow> st' = st"
  by (auto simp: hmget_def split: option.splits)

lemma read_refill_store: "read_refill cfg now ip st = (r, st') \<Longrightarrow> st' = st"
  by (auto simp: read_refill_def Let_def dest: hmget_store split: prod.splits sum.splits)

lemma read_refill_exn:
  "read_refill cfg now ip st = (Inl e, st') \<Longrightarrow>
     (\<exists>x. e = RedisError x) \<or> (\<exists>s. e = ValueError s)"
  by (auto simp: read_refill_def Let_def dest: float_or_exn split: prod.splits sum.splits)

lemma allow_request_try_denied:
  assumes "allow_request_try cfg now ip st = (Inl (RateLimitExceeded r h), st')"
  shows "\<exists>t. read_refill cfg now ip st = (Inr t, st) \<and> st' = st \<and> t < 1 \<and>
             refill_rate cfg \<noteq> 0 \<and>
             RateLimitExceeded r h =
               mk_RateLimitExceeded (py_int ((1 - t) / refill_rate cfg) + 1)"
proof (cases "read_refill cfg now ip st")
  case (Pair res st1)
  then have st1: "st1 = st" by (rule read_refill_store)
  show ?thesis
  proof (cases res)
    case (Inl e)
    with Pair assms read_refill_exn[of cfg now ip st e st1] show ?thesis
      by (auto simp: allow_request_try_def Let_def)
  next
    case (Inr t)
    with Pair assms st1 show ?thesis
      by (auto simp: allow_request_try_def py_div_def Let_def split: if_splits prod.splits sum.splits)
  qed
qed

lemma allow_request_denied_try:
  "allow_request cfg now ip st = (Inl e, st') \<Longrightarrow>
     (\<exists>r h. e = RateLimitExceeded r h) \<and> allow_request_try cfg now ip st = (Inl e, st')"
  by (auto simp: allow_request_def split: prod.splits sum.splits exn.splits)

text \<open>
  With the refill rate zero no call is ever denied: the division of line 80 raises, and
  the handler allows the request.
\<close>

lemma allow_request_rate_zero:
  "refill_rate cfg = 0 \<Longrightarrow> fst (allow_request cfg now ip st) = Inr True"
proof -
  assume z: "refill_rate cfg = 0"
  obtain res st' where a: "allow_request cfg now ip st = (res, st')"
    by (cases "allow_request cfg now ip st")
  show ?thesis
  proof (cases res)
    case (Inl e)
    with a allow_request_denied_try[of cfg now ip st e st']
    obtain r h where "allow_request_try cfg now ip st = (Inl (RateLimitExceeded r h), st')"
      by auto
    from allow_request_try_denied[OF this] z show ?thesis by simp
  next
    case (Inr v)
    with a allow_request_cases[of cfg now ip st] show ?thesis by simp
  qed
qed

section \<open>The refill and the retry time\<close>

lemma py_int_pos: "0 \<le> x \<Longrightarrow> py_int x = \<lfloor>x\<rfloor>"
  by (simp add: py_int_def)

lemma get_stats_stored:
  "hmget_exc st = None \<Longrightarrow> live st now (''bucket:'' @ ip) = Some h \<Longrightarrow>
   hfields h ''tokens'' = Some (Numeric t) \<Longrightarrow> hfields h ''last'' = Some (Numeric l) \<Longrightarrow>
   get_stats cfg now ip st =
     (Inr \<lparr>tokens_available = py_round2 (refill cfg t l now), stat_capacity = capacity cfg,
           stat_refill_rate = refill_rate cfg, last_request = Some l,
           time_since_last = Some (py_round2 (now - l)), status = ''active''\<rparr>, st)"
  by (simp add: get_stats_def get_stats_try_def hmget_def)

lemma refill_not_below:
  assumes "l \<le> now" and "0 \<le> refill_rate cfg"
  shows "min (capacity cfg) t \<le> refill cfg t l now"
proof -
  from assms have "0 \<le> (now - l) * refill_rate cfg" by simp
  then show ?thesis unfolding refill_def Let_def by linarith
qed

lemma refill_below:
  assumes "now < l" and "0 < refill_rate cfg"
  shows "refill cfg t l now < t"
proof -
  from assms have "(now - l) * refill_rate cfg < 0"
    by (simp add: mult_neg_pos)
  then show ?thesis unfolding refill_def Let_def by linarith
qed

section \<open>Failures and writes\<close>

lemma allow_request_read_error:
  "hmget_exc st = Some e \<Longrightarrow> allow_request cfg now ip st = (Inr True, st)"
  by (simp add: allow_request_def allow_request_try_def read_refill_def hmget_def)



lemma allow_request_snd:
  "snd (allow_request cfg now ip st) = snd (allow_request_try cfg now ip st)"
  by (auto simp: allow_request_def split: prod.splits sum.splits exn.splits)

lemma hset_result:
  "hset st now key m = (res, st') \<Longrightarrow>
     (\<exists>e. hset_exc st = Some e \<and> res = Inl e \<and> st' = st) \<or> (hset_exc st = None \<and> res = Inr ())"
  by (auto simp: hset_def Let_def split: option.splits)

lemma expire_error: "expire st now key secs = (Inl e, st') \<Longrightarrow> st' = st"
  by (auto simp: expire_def split: option.splits)

lemma hmget_ok: "hmget st now key f1 f2 = (Inr d, st') \<Longrightarrow> hmget_exc st = None"
  by (auto simp: hmget_def split: option.splits)

lemma read_refill_ok: "read_refill cfg now ip st = (Inr t, st') \<Longrightarrow> hmget_exc st = None"
  by (auto simp: read_refill_def Let_def dest: hmget_ok split: prod.splits sum.splits)

lemma allow_request_try_changed:
  assumes "allow_request_try cfg now ip st = (res, st')" and "st' \<noteq> st"
  shows "hmget_exc st = None \<and> hset_exc st = None \<and>
         (\<exists>t. read_refill cfg now ip st = (Inr t, st) \<and> 1 \<le> t) \<and>
         (res = Inr True \<or> (\<exists>e. res = Inl (RedisError e)))"
proof (cases "read_refill cfg now ip st")
  case (Pair rr st1)
  then have st1: "st1 = st" by (rule read_refill_store)
  show ?thesis
  proof (cases rr)
    case (Inl e)
    with Pair st1 assms show ?thesis by (simp add: allow_request_try_def)
  next
    case (Inr t)
    with Pair st1 have rr: "read_refill cfg now ip st = (Inr t, st)" by simp
    then have hm: "hmget_exc st = None" by (rule read_refill_ok)
    show ?thesis
    proof (cases "t < 1")
      case True
      with rr assms show ?thesis
        by (auto simp: allow_request_try_def split: sum.splits)
    next
      case False
      obtain hr st2 where hs:
        "hset st now (''bucket:'' @ ip) [(''tokens'', t - 1), (''last'', now)] = (hr, st2)"
        by (cases "hset st now (''bucket:'' @ ip) [(''tokens'', t - 1), (''last'', now)]")
      from hset_result[OF hs] rr False hs assms hm show ?thesis
        by (auto simp: allow_request_try_def split: prod.splits sum.splits)
    qed
  qed
qed

lemma write_record:
  assumes "healthy st"
  shows "\<exists>st2 st3 h'. hset st now key [(''tokens'', t), (''last'', now)] = (Inr (), st2) \<and>
           expire st2 now key 60 = (Inr True, st3) \<and> healthy st3 \<and>
           live st3 now key = Some h' \<and> hfields h' ''tokens'' = Some (Numeric t) \<and>
           hfields h' ''last'' = Some (Numeric now) \<and> ttl_at h' = Some (now + 60)"
  using assms
  by (auto simp: healthy_def hset_def expire_def live_def Let_def split: option.splits)


section \<open>Bounds of the token count\<close>

lemma py_round2_of_int: "py_round2 (of_int c) = of_int c"
proof -
  have "\<lfloor>(of_int c :: real) * 100\<rfloor> = c * 100"
    by (metis floor_of_int of_int_mult of_int_numeral)
  then show ?thesis by (simp add: py_round2_def Let_def)
qed

lemma py_round2_nonneg:
  assumes "0 \<le> x" shows "0 \<le> py_round2 x"
proof -
  from assms have "0 \<le> \<lfloor>x * 100\<rfloor>" by simp
  then show ?thesis by (simp add: py_round2_def Let_def)
qed

lemma py_round2_le_of_int:
  assumes "x \<le> of_int c" shows "py_round2 x \<le> of_int c"
proof -
  let ?y = "x * 100"
  let ?f = "\<lfloor>?y\<rfloor>"
  from assms have y: "?y \<le> of_int (c * 100)" by simp
  then have f: "?f \<le> c * 100" by (simp add: floor_le_iff) 
  show ?thesis
  proof (cases "?f = c * 100")
    case True
    with y have "?y = of_int ?f"
      by (metis of_int_floor_le order_antisym) 
    then have "?y - of_int ?f < 1 / 2" by simp
    with True show ?thesis by (simp add: py_round2_def Let_def)
  next
    case False
    with f have "?f + 1 \<le> c * 100" by simp
    then have a: "(of_int (?f + 1) :: real) \<le> of_int (c * 100)"
      by (simp only: of_int_le_iff)
    have b: "(of_int ?f :: real) \<le> of_int (?f + 1)" by simp
    from a b have "(of_int ?f :: real) / 100 \<le> of_int c \<and> (of_int (?f + 1) :: real) / 100 \<le> of_int c"
      by simp
    then show ?thesis by (simp add: py_round2_def Let_def)
  qed
qed

lemma refill_le_capacity: "refill cfg t l now \<le> capacity cfg"
  by (simp add: refill_def)

lemma refill_nonneg:
  assumes "0 \<le> t" and "l \<le> now" and "0 \<le> refill_rate cfg" and "0 \<le> capacity cfg"
  shows "0 \<le> refill cfg t l now"
proof -
  from assms have "0 \<le> min (capacity cfg) t" by simp
  with refill_not_below[OF assms(2,3), of t] show ?thesis by linarith
qed

lemma read_refill_le_capacity:
  "read_refill cfg now ip st = (Inr t, st') \<Longrightarrow> t \<le> capacity cfg"
  by (auto simp: read_refill_def Let_def refill_le_capacity split: prod.splits sum.splits)

lemma hset_written:
  assumes "hset_exc st = None"
  shows "\<exists>st2 h2. hset st now key [(''tokens'', v), (''last'', w)] = (Inr (), st2) \<and>
           hashes st2 key = Some h2 \<and> hfields h2 ''tokens'' = Some (Numeric v) \<and>
           hfields h2 ''last'' = Some (Numeric w)"
  using assms by (simp add: hset_def Let_def)

lemma expire_keeps_fields:
  assumes "hashes st2 key = Some h2" and "expire st2 now key secs = (r, st3)"
  shows "\<exists>h3. hashes st3 key = Some h3 \<and> hfields h3 = hfields h2"
  using assms by (auto simp: expire_def live_def split: option.splits if_splits)

lemma allow_request_try_written:
  assumes "allow_request_try cfg now ip st = (res, st')" and "st' \<noteq> st"
  shows "\<exists>t h'. read_refill cfg now ip st = (Inr t, st) \<and> 1 \<le> t \<and>
           hashes st' (''bucket:'' @ ip) = Some h' \<and>
           hfields h' ''tokens'' = Some (Numeric (t - 1)) \<and>
           hfields h' ''last'' = Some (Numeric now)"
proof -
  from allow_request_try_changed[OF assms] obtain t where
    hs: "hset_exc st = None" and rr: "read_refill cfg now ip st = (Inr t, st)" and t: "1 \<le> t"
    by blast
  from hset_written[OF hs, of now "''bucket:'' @ ip" "t - 1" now] obtain st2 h2 where
    w: "hset st now (''bucket:'' @ ip) [(''tokens'', t - 1), (''last'', now)] = (Inr (), st2)"
    and h2: "hashes st2 (''bucket:'' @ ip) = Some h2"
    and f2: "hfields h2 ''tokens'' = Some (Numeric (t - 1))"
            "hfields h2 ''last'' = Some (Numeric now)"
    by blast
  obtain r3 st3 where x: "expire st2 now (''bucket:'' @ ip) 60 = (r3, st3)"
    by (cases "expire st2 now (''bucket:'' @ ip) 60")
  from assms(1) rr t w x have "st' = st3"
    by (auto simp: allow_request_try_def split: sum.splits)
  with expire_keeps_fields[OF h2 x] f2 rr t show ?thesis by auto
qed

lemma live_hashes: "live st now key = Some h \<Longrightarrow> hashes st key = Some h"
  by (auto simp: live_def split: option.splits if_splits)

lemma live_later:
  "hashes st key = Some h \<Longrightarrow> ttl_at h = Some e \<Longrightarrow>
   live st t key = (if e \<le> t then None else Some h)"
  by (simp add: live_def)

lemma allow_request_written_store:
  assumes "healthy st" and "read_refill cfg now ip st = (Inr t, st)" and "1 \<le> t"
  shows "fst (allow_request cfg now ip st) = Inr True \<and>
         hmget_exc (snd (allow_request cfg now ip st)) = None \<and>
         (\<exists>h'. hashes (snd (allow_request cfg now ip st)) (''bucket:'' @ ip) = Some h' \<and>
               hfields h' ''tokens'' = Some (Numeric (t - 1)) \<and>
               hfields h' ''last'' = Some (Numeric now) \<and> ttl_at h' = Some (now + 60))"
proof -
  from write_record[OF assms(1), of now "''bucket:'' @ ip" "t - 1"]
  obtain st2 st3 h' where
    w: "hset st now (''bucket:'' @ ip) [(''tokens'', t - 1), (''last'', now)] = (Inr (), st2)"
    and x: "expire st2 now (''bucket:'' @ ip) 60 = (Inr True, st3)"
    and hl: "healthy st3"
    and l: "live st3 now (''bucket:'' @ ip) = Some h'"
    and f: "hfields h' ''tokens'' = Some (Numeric (t - 1))"
           "hfields h' ''last'' = Some (Numeric now)" "ttl_at h' = Some (now + 60)"
    by blast
  from assms(2,3) w x have "allow_request cfg now ip st = (Inr True, st3)"
    by (simp add: allow_request_def allow_request_try_def)
  with live_hashes[OF l] f hl show ?thesis by (simp add: healthy_def)
qed

lemma refill_full:
  assumes "capacity cfg = of_nat C" and "0 < C" and "refill_rate cfg \<noteq> 0"
  shows "refill cfg (of_nat C - 1) 0 (of_nat C / refill_rate cfg) = of_nat C"
proof -
  from assms(3) have "(of_nat C / refill_rate cfg - 0) * refill_rate cfg = of_nat C"
    by simp
  moreover from assms(2) have "(1::real) \<le> of_nat C" by simp
  ultimately show ?thesis using assms(1) by (simp add: refill_def)
qed

lemma py_round2_of_nat: "py_round2 (of_nat C) = of_nat C"
  using py_round2_of_int[of "int C"] by simp





lemmas store_defs = hmget_def hset_def expire_def ping_def live_def

lemmas fixture_defs =
  default_bucket_def bucket_hash_def store_of_def empty_store_def unreachable_def

lemmas allow_defs =
  allow_request_def allow_request_try_def read_refill_def refill_def py_div_def py_int_def
  mk_RateLimitExceeded_def

section \<open>Capacity many calls, then a denial\<close>

text \<open>
  C1. A fresh identity making \<open>C\<close> calls at the same clock reading is allowed \<open>C\<close> times
  and denied the next time, whatever the refill rate. The code does so for every refill
  rate but zero (\<open>allow_requests_capacity\<close> above). With \<^verbatim>\<open>refill_rate = 0\<close> the division
  of line 80 raises \<^verbatim>\<open>ZeroDivisionError\<close>, the handler of lines 98-101 (written for a
  Redis that is down) catches it, and the request is allowed: with capacity 1, the
  second call at the same instant is allowed too.
\<close>

theorem zero_refill_rate_never_denies:
  "fst (allow_requests \<lparr>capacity = 1, refill_rate = 0\<rparr> 0 ''1.2.3.4'' 2 empty_store)
     = [Inr True, Inr True]"
  by code_simp

section \<open>A new identity in the statistics\<close>

text \<open>
  C9. For an identity with no stored (live) hash, \<^verbatim>\<open>get_stats\<close> returns the status
  \<^verbatim>\<open>"new"\<close> with \<^verbatim>\<open>tokens_available\<close> equal to the capacity, and leaves the store as it
  was: there is still no hash for the identity afterwards.
\<close>

theorem get_stats_new_identity:
  assumes "hmget_exc st = None" and "live st now (''bucket:'' @ ip) = None"
  shows "get_stats cfg now ip st =
           (Inr \<lparr>tokens_available = capacity cfg, stat_capacity = capacity cfg,
                 stat_refill_rate = refill_rate cfg, last_request = None,
                 time_since_last = None, status = ''new''\<rparr>, st)
         \<and> live (snd (get_stats cfg now ip st)) now (''bucket:'' @ ip) = None"
  using assms by (simp add: get_stats_new)

theorem get_stats_new_identity_witness:
  "hmget_exc empty_store = None \<and> live empty_store 5 (''bucket:'' @ ''1.2.3.4'') = None \<and>
   get_stats default_bucket 5 ''1.2.3.4'' empty_store =
     (Inr \<lparr>tokens_available = 10, stat_capacity = 10, stat_refill_rate = 1,
           last_request = None, time_since_last = None, status = ''new''\<rparr>, empty_store)"
proof -
  have a: "hmget_exc empty_store = None" by (simp add: empty_store_def)
  have b: "live empty_store 5 (''bucket:'' @ ''1.2.3.4'') = None"
    by (simp add: live_def empty_store_def)
  from get_stats_new_identity[OF a b, of default_bucket] a b show ?thesis
    by (simp add: default_bucket_def)
qed

section \<open>What escapes \<^verbatim>\<open>allow_request\<close>\<close>

text \<open>
  C10. Whatever the store does and whatever the stored fields hold, a call of
  \<^verbatim>\<open>allow_request\<close> returns \<^verbatim>\<open>True\<close> or raises \<^verbatim>\<open>RateLimitExceeded\<close>; no other exception
  leaves it. The witness shows a \<^verbatim>\<open>ValueError\<close> raised inside the \<^verbatim>\<open>try\<close> and turned
  into an allowed request, and a denial.
\<close>

theorem allow_request_outcomes:
  "fst (allow_request cfg now ip st) = Inr True \<or>
   (\<exists>r h. fst (allow_request cfg now ip st) = Inl (RateLimitExceeded r h))"
  by (rule allow_request_cases)

theorem allow_request_outcomes_witness:
  "fst (allow_request_try default_bucket 0 ''1.2.3.4''
          (store_of ''bucket:1.2.3.4'' (bucket_hash (NonNumeric ''abc'') (Numeric 0) None)))
     = Inl (ValueError ''abc'') \<and>
   fst (allow_request default_bucket 0 ''1.2.3.4''
          (store_of ''bucket:1.2.3.4'' (bucket_hash (NonNumeric ''abc'') (Numeric 0) None)))
     = Inr True \<and>
   fst (allow_request default_bucket 0 ''1.2.3.4''
          (store_of ''bucket:1.2.3.4'' (bucket_hash (Numeric (1/2)) (Numeric 0) None)))
     = Inl (RateLimitExceeded 1 (Some 1))"
  using allow_request_outcomes[of default_bucket 0 "''1.2.3.4''"
      "store_of ''bucket:1.2.3.4'' (bucket_hash (NonNumeric ''abc'') (Numeric 0) None)"]
  by (simp add: allow_defs store_defs fixture_defs)

section \<open>The retry time of a denial\<close>

text \<open>
  C2 as stated: a denial carries \<open>retry_after = ceil((1 - tokens') / refill_rate)\<close>, at
  least 1. Line 80 computes \<^verbatim>\<open>int((1 - tokens) / self.refill_rate) + 1\<close> instead. With the
  defaults' refill rate 1 and capacity 1, the second call at the same instant finds
  0 tokens: the ceiling of \<open>(1 - 0) / 1\<close> is 1, the denial carries 2. With the refill rate
  \<open>-1\<close> the same denial carries 0, which is below 1 (and sets no header).
\<close>

theorem retry_after_not_ceiling:
  "fst (read_refill \<lparr>capacity = 1, refill_rate = 1\<rparr> 0 ''1.2.3.4''
          (snd (allow_request \<lparr>capacity = 1, refill_rate = 1\<rparr> 0 ''1.2.3.4'' empty_store)))
     = Inr 0
   \<and> fst (allow_request \<lparr>capacity = 1, refill_rate = 1\<rparr> 0 ''1.2.3.4''
          (snd (allow_request \<lparr>capacity = 1, refill_rate = 1\<rparr> 0 ''1.2.3.4'' empty_store)))
     = Inl (RateLimitExceeded 2 (Some 2))
   \<and> \<lceil>(1 - 0) / (1::real)\<rceil> = 1
   \<and> fst (allow_request \<lparr>capacity = 1, refill_rate = - 1\<rparr> 0 ''1.2.3.4''
          (snd (allow_request \<lparr>capacity = 1, refill_rate = - 1\<rparr> 0 ''1.2.3.4'' empty_store)))
     = Inl (RateLimitExceeded 0 None)"
  by code_simp

text \<open>
  C2 as amended: when \<^verbatim>\<open>allow_request\<close> denies and the refill rate is positive, the
  refilled count \<open>t\<close> is below 1 and the denial carries
  \<open>floor((1 - t) / refill_rate) + 1\<close>, which is at least 1 and is also the value of the
  \<^verbatim>\<open>Retry-After\<close> header. It is the ceiling of the quotient unless the quotient is a
  whole number; then it is the ceiling plus one.
\<close>

theorem retry_after_value:
  assumes "allow_request cfg now ip st = (Inl (RateLimitExceeded r h), st')"
    and "0 < refill_rate cfg"
  shows "\<exists>t. read_refill cfg now ip st = (Inr t, st) \<and> t < 1 \<and>
             r = \<lfloor>(1 - t) / refill_rate cfg\<rfloor> + 1 \<and> 1 \<le> r \<and> h = Some r \<and>
             r = (if (1 - t) / refill_rate cfg = of_int \<lfloor>(1 - t) / refill_rate cfg\<rfloor>
                  then \<lceil>(1 - t) / refill_rate cfg\<rceil> + 1
                  else \<lceil>(1 - t) / refill_rate cfg\<rceil>)"
proof -
  from assms(1) have "allow_request_try cfg now ip st = (Inl (RateLimitExceeded r h), st')"
    by (simp add: allow_request_denied_try)
  from allow_request_try_denied[OF this] obtain t where
    rr: "read_refill cfg now ip st = (Inr t, st)" and t: "t < 1"
    and e: "RateLimitExceeded r h =
              mk_RateLimitExceeded (py_int ((1 - t) / refill_rate cfg) + 1)"
    by blast
  let ?q = "(1 - t) / refill_rate cfg"
  from t assms(2) have q: "0 < ?q" by simp
  then have pi: "py_int ?q = \<lfloor>?q\<rfloor>" by (simp add: py_int_pos)
  from q have fl: "0 \<le> \<lfloor>?q\<rfloor>" by simp
  from e pi have r: "r = \<lfloor>?q\<rfloor> + 1"
    by (simp add: mk_RateLimitExceeded_def)
  from e pi fl have h: "h = Some r"
    by (simp add: mk_RateLimitExceeded_def split: if_splits)
  from r have c: "r = (if ?q = of_int \<lfloor>?q\<rfloor> then \<lceil>?q\<rceil> + 1 else \<lceil>?q\<rceil>)"
    by (simp add: ceiling_altdef)
  from rr t r fl h c show ?thesis by auto
qed

theorem retry_after_value_witness:
  "allow_request default_bucket (1/2) ''1.2.3.4''
      (store_of ''bucket:1.2.3.4'' (bucket_hash (Numeric (1/4)) (Numeric 0) None))
     = (Inl (RateLimitExceeded 1 (Some 1)),
        store_of ''bucket:1.2.3.4'' (bucket_hash (Numeric (1/4)) (Numeric 0) None))
   \<and> 0 < refill_rate default_bucket
   \<and> (\<exists>t. read_refill default_bucket (1/2) ''1.2.3.4''
             (store_of ''bucket:1.2.3.4'' (bucket_hash (Numeric (1/4)) (Numeric 0) None))
            = (Inr t, store_of ''bucket:1.2.3.4'' (bucket_hash (Numeric (1/4)) (Numeric 0) None))
          \<and> t < 1 \<and> (1::int) = \<lfloor>(1 - t) / refill_rate default_bucket\<rfloor> + 1)"
proof -
  let ?st = "store_of ''bucket:1.2.3.4'' (bucket_hash (Numeric (1/4)) (Numeric 0) None)"
  have a: "allow_request default_bucket (1/2) ''1.2.3.4'' ?st
             = (Inl (RateLimitExceeded 1 (Some 1)), ?st)"
    by (simp add: allow_defs store_defs fixture_defs)
  have b: "0 < refill_rate default_bucket" by (simp add: default_bucket_def)
  from retry_after_value[OF a b] a b show ?thesis by blast
qed

section \<open>The elapsed time is not clamped\<close>

text \<open>
  C3 as stated: the elapsed time \<open>now - last\<close> is clamped at 0, so that a stored stamp
  later than the clock never lowers the token count. Lines 75-76 and 48-49 use the
  difference as it is. A request served at clock 10 leaves 9 tokens stamped 10; read at
  clock 0 (a clock 10 seconds behind), the refill gives \<open>-1\<close>, below the stored 9.
\<close>

theorem refill_unclamped_counterexample:
  "snd (allow_request default_bucket 10 ''1.2.3.4'' empty_store)
     = store_of ''bucket:1.2.3.4'' (bucket_hash (Numeric 9) (Numeric 10) (Some 70))
   \<and> fst (read_refill default_bucket 0 ''1.2.3.4''
           (store_of ''bucket:1.2.3.4'' (bucket_hash (Numeric 9) (Numeric 10) (Some 70))))
     = Inr (- 1)
   \<and> (- 1 :: real) < 9"
  by (simp add: allow_defs store_defs fixture_defs)

text \<open>
  C3 as amended: for a stored hash with numeric fields, \<^verbatim>\<open>allow_request\<close> and
  \<^verbatim>\<open>get_stats\<close> both compute \<open>min capacity (tokens + (now - last) * refill_rate)\<close> with
  the signed difference. When the stamp is not later than the clock and the refill rate
  is not negative, the result is not below \<open>min capacity tokens\<close>; when the stamp is
  later than the clock and the refill rate is positive, the result is below the stored
  tokens.
\<close>

theorem refill_elapsed_signed:
  assumes "hmget_exc st = None" and "live st now (''bucket:'' @ ip) = Some h"
    and "hfields h ''tokens'' = Some (Numeric t)" and "hfields h ''last'' = Some (Numeric l)"
  shows "read_refill cfg now ip st =
           (Inr (min (capacity cfg) (t + (now - l) * refill_rate cfg)), st)
       \<and> (\<exists>s. get_stats cfg now ip st = (Inr s, st) \<and>
              tokens_available s =
                py_round2 (min (capacity cfg) (t + (now - l) * refill_rate cfg)))
       \<and> (l \<le> now \<and> 0 \<le> refill_rate cfg \<longrightarrow>
            min (capacity cfg) t \<le> min (capacity cfg) (t + (now - l) * refill_rate cfg))
       \<and> (now < l \<and> 0 < refill_rate cfg \<longrightarrow>
            min (capacity cfg) (t + (now - l) * refill_rate cfg) < t)"
proof -
  have r: "refill cfg t l now = min (capacity cfg) (t + (now - l) * refill_rate cfg)"
    by (simp add: refill_def)
  from read_refill_stored[OF assms] r
  have a: "read_refill cfg now ip st =
             (Inr (min (capacity cfg) (t + (now - l) * refill_rate cfg)), st)"
    by simp
  from get_stats_stored[OF assms, of cfg] r
  have b: "\<exists>s. get_stats cfg now ip st = (Inr s, st) \<and>
              tokens_available s =
                py_round2 (min (capacity cfg) (t + (now - l) * refill_rate cfg))"
    by simp
  from refill_not_below[of l now cfg t] r
  have c: "l \<le> now \<and> 0 \<le> refill_rate cfg \<longrightarrow>
            min (capacity cfg) t \<le> min (capacity cfg) (t + (now - l) * refill_rate cfg)"
    by simp
  from refill_below[of now l cfg t] r
  have d: "now < l \<and> 0 < refill_rate cfg \<longrightarrow>
            min (capacity cfg) (t + (now - l) * refill_rate cfg) < t"
    by simp
  from a b c d show ?thesis by blast
qed

theorem refill_elapsed_signed_witness:
  "read_refill default_bucket 12 ''1.2.3.4''
      (store_of ''bucket:1.2.3.4'' (bucket_hash (Numeric 9) (Numeric 10) (Some 70)))
     = (Inr 10, store_of ''bucket:1.2.3.4'' (bucket_hash (Numeric 9) (Numeric 10) (Some 70)))
   \<and> min (capacity default_bucket) 9 \<le> (10::real)
   \<and> read_refill default_bucket 0 ''1.2.3.4''
      (store_of ''bucket:1.2.3.4'' (bucket_hash (Numeric 9) (Numeric 10) (Some 70)))
     = (Inr (- 1), store_of ''bucket:1.2.3.4'' (bucket_hash (Numeric 9) (Numeric 10) (Some 70)))
   \<and> (- 1 :: real) < 9"
proof -
  let ?h = "bucket_hash (Numeric 9) (Numeric 10) (Some 70)"
  let ?st = "store_of ''bucket:1.2.3.4'' ?h"
  have a: "hmget_exc ?st = None" by (simp add: fixture_defs)
  have b: "live ?st 12 (''bucket:'' @ ''1.2.3.4'') = Some ?h"
    by (simp add: live_def fixture_defs)
  have c: "live ?st 0 (''bucket:'' @ ''1.2.3.4'') = Some ?h"
    by (simp add: live_def fixture_defs)
  have d: "hfields ?h ''tokens'' = Some (Numeric 9)" by (simp add: bucket_hash_def)
  have e: "hfields ?h ''last'' = Some (Numeric 10)" by (simp add: bucket_hash_def)
  from refill_elapsed_signed[OF a b d e, of default_bucket]
       refill_elapsed_signed[OF a c d e, of default_bucket]
  show ?thesis by (simp add: default_bucket_def)
qed

section \<open>Failing open\<close>




section \<open>When the stored hash is written\<close>




section \<open>A store that cannot be reached\<close>

text \<open>
  C7 as stated: on a store that cannot be reached, \<^verbatim>\<open>get_stats\<close> and
  \<^verbatim>\<open>check_redis_connection\<close> hand the store's error to the caller untouched. Lines 24-26
  catch the \<^verbatim>\<open>redis.ConnectionError\<close> of \<^verbatim>\<open>ping\<close> and raise a new
  \<^verbatim>\<open>Exception("Redis connection failed")\<close> in its place: the type and the message of the
  store's exception are gone.
\<close>

theorem check_redis_connection_replaces_error:
  "ping_exc (unreachable (ConnectionError ''refused'')) = Some (ConnectionError ''refused'')
   \<and> fst (check_redis_connection (unreachable (ConnectionError ''refused'')))
       = Inl (PyException ''Redis connection failed'')
   \<and> fst (check_redis_connection (unreachable (ConnectionError ''refused'')))
       \<noteq> Inl (RedisError (ConnectionError ''refused''))"
  by (simp add: check_redis_connection_def ping_def unreachable_def)

text \<open>
  C7 as amended: when the store cannot be reached, \<^verbatim>\<open>get_stats\<close> raises the store's
  exception again as it is, and \<^verbatim>\<open>check_redis_connection\<close> raises as well: in place of a
  \<^verbatim>\<open>redis.ConnectionError\<close> the exception \<^verbatim>\<open>Exception("Redis connection failed")\<close>, and
  any other exception of the client as it is. Neither returns a result, and neither
  touches the store, while \<^verbatim>\<open>allow_request\<close> on the same store returns \<^verbatim>\<open>True\<close>.
\<close>

theorem unreachable_store_errors:
  assumes "hmget_exc st = Some e" and "ping_exc st = Some e"
  shows "get_stats cfg now ip st = (Inl (RedisError e), st)
       \<and> check_redis_connection st =
           (Inl (case e of ConnectionError m \<Rightarrow> PyException ''Redis connection failed''
                 | _ \<Rightarrow> RedisError e), st)
       \<and> allow_request cfg now ip st = (Inr True, st)"
  using assms
  by (auto simp: get_stats_def get_stats_try_def hmget_def check_redis_connection_def ping_def
      allow_request_read_error split: redis_exc.splits)

theorem unreachable_store_errors_witness:
  "hmget_exc (unreachable (ConnectionError ''refused'')) = Some (ConnectionError ''refused'')
   \<and> ping_exc (unreachable (ConnectionError ''refused'')) = Some (ConnectionError ''refused'')
   \<and> get_stats default_bucket 0 ''1.2.3.4'' (unreachable (ConnectionError ''refused''))
       = (Inl (RedisError (ConnectionError ''refused'')), unreachable (ConnectionError ''refused''))
   \<and> check_redis_connection (unreachable (ConnectionError ''refused''))
       = (Inl (PyException ''Redis connection failed''), unreachable (ConnectionError ''refused''))
   \<and> check_redis_connection (unreachable (TimeoutError ''slow''))
       = (Inl (RedisError (TimeoutError ''slow'')), unreachable (TimeoutError ''slow''))
   \<and> allow_request default_bucket 0 ''1.2.3.4'' (unreachable (ConnectionError ''refused''))
       = (Inr True, unreachable (ConnectionError ''refused''))"
proof -
  have a: "hmget_exc (unreachable e) = Some e" and b: "ping_exc (unreachable e) = Some e" for e
    by (simp_all add: unreachable_def)
  from unreachable_store_errors[where st = "unreachable (ConnectionError ''refused'')"
         and e = "ConnectionError ''refused''" and cfg = default_bucket and now = 0
         and ip = "''1.2.3.4''"]
       unreachable_store_errors[where st = "unreachable (TimeoutError ''slow'')"
         and e = "TimeoutError ''slow''" and cfg = default_bucket and now = 0
         and ip = "''1.2.3.4''"]
       a b
  show ?thesis by simp
qed

section \<open>The token count stays in range\<close>

text \<open>
  C6 as stated: every token value the engine shows or writes lies between 0 and the
  capacity. The refill has no lower bound of its own: after a request served at clock
  10, \<^verbatim>\<open>get_stats\<close> at clock 0 (a clock 10 seconds behind) reports \<open>-1\<close> tokens.
\<close>

theorem stats_negative_tokens:
  "fst (get_stats default_bucket 0 ''1.2.3.4''
         (snd (allow_request default_bucket 10 ''1.2.3.4'' empty_store)))
     = Inr \<lparr>tokens_available = - 1, stat_capacity = 10, stat_refill_rate = 1,
            last_request = Some 10, time_since_last = Some (- 10), status = ''active''\<rparr>
   \<and> (- 1 :: real) < 0"
  by code_simp

text \<open>
  C6 as amended: the refill never exceeds the capacity, however long the elapsed time;
  the value \<^verbatim>\<open>allow_request\<close> writes after taking one token lies between 0 and the
  capacity minus one; the \<^verbatim>\<open>tokens_available\<close> that \<^verbatim>\<open>get_stats\<close> reports for a stored
  hash is the rounded refill and does not exceed a whole-number capacity. The refill,
  and with it the reported value, is not negative when the stored tokens are not
  negative, the stored stamp is not later than the clock, and neither the refill rate
  nor the capacity is negative.
\<close>

theorem token_bounds:
  "refill cfg t l now \<le> capacity cfg \<and>
   (snd (allow_request cfg now ip st) \<noteq> st \<longrightarrow>
      (\<exists>h' t'. hashes (snd (allow_request cfg now ip st)) (''bucket:'' @ ip) = Some h' \<and>
         hfields h' ''tokens'' = Some (Numeric t') \<and> 0 \<le> t' \<and> t' \<le> capacity cfg - 1)) \<and>
   (0 \<le> t \<and> l \<le> now \<and> 0 \<le> refill_rate cfg \<and> 0 \<le> capacity cfg \<longrightarrow>
      0 \<le> refill cfg t l now) \<and>
   (hmget_exc st = None \<and> live st now (''bucket:'' @ ip) = Some h \<and>
    hfields h ''tokens'' = Some (Numeric t) \<and> hfields h ''last'' = Some (Numeric l) \<longrightarrow>
      (\<exists>s. fst (get_stats cfg now ip st) = Inr s \<and>
         tokens_available s = py_round2 (refill cfg t l now) \<and>
         (capacity cfg = of_int c \<longrightarrow> tokens_available s \<le> capacity cfg) \<and>
         (0 \<le> t \<and> l \<le> now \<and> 0 \<le> refill_rate cfg \<and> 0 \<le> capacity cfg \<longrightarrow>
            0 \<le> tokens_available s)))"
proof -
  have 1: "refill cfg t l now \<le> capacity cfg" by (rule refill_le_capacity)
  have 2: "snd (allow_request cfg now ip st) \<noteq> st \<longrightarrow>
      (\<exists>h' t'. hashes (snd (allow_request cfg now ip st)) (''bucket:'' @ ip) = Some h' \<and>
         hfields h' ''tokens'' = Some (Numeric t') \<and> 0 \<le> t' \<and> t' \<le> capacity cfg - 1)"
  proof
    assume n: "snd (allow_request cfg now ip st) \<noteq> st"
    obtain res st' where a: "allow_request_try cfg now ip st = (res, st')"
      by (cases "allow_request_try cfg now ip st")
    then have s: "snd (allow_request cfg now ip st) = st'"
      by (simp add: allow_request_snd)
    with n have "st' \<noteq> st" by simp
    from allow_request_try_written[OF a this] obtain u h' where
      rr: "read_refill cfg now ip st = (Inr u, st)" and u: "1 \<le> u"
      and h: "hashes st' (''bucket:'' @ ip) = Some h'"
             "hfields h' ''tokens'' = Some (Numeric (u - 1))"
      by blast
    from read_refill_le_capacity[OF rr] u have "0 \<le> u - 1 \<and> u - 1 \<le> capacity cfg - 1"
      by simp
    with h show "\<exists>h' t'. hashes (snd (allow_request cfg now ip st)) (''bucket:'' @ ip) = Some h' \<and>
         hfields h' ''tokens'' = Some (Numeric t') \<and> 0 \<le> t' \<and> t' \<le> capacity cfg - 1"
      unfolding s by blast
  qed
  have 3: "0 \<le> t \<and> l \<le> now \<and> 0 \<le> refill_rate cfg \<and> 0 \<le> capacity cfg \<longrightarrow>
      0 \<le> refill cfg t l now"
    using refill_nonneg[of t l now cfg] by blast
  have 4: "hmget_exc st = None \<and> live st now (''bucket:'' @ ip) = Some h \<and>
    hfields h ''tokens'' = Some (Numeric t) \<and> hfields h ''last'' = Some (Numeric l) \<longrightarrow>
      (\<exists>s. fst (get_stats cfg now ip st) = Inr s \<and>
         tokens_available s = py_round2 (refill cfg t l now) \<and>
         (capacity cfg = of_int c \<longrightarrow> tokens_available s \<le> capacity cfg) \<and>
         (0 \<le> t \<and> l \<le> now \<and> 0 \<le> refill_rate cfg \<and> 0 \<le> capacity cfg \<longrightarrow>
            0 \<le> tokens_available s))"
  proof
    assume p: "hmget_exc st = None \<and> live st now (''bucket:'' @ ip) = Some h \<and>
      hfields h ''tokens'' = Some (Numeric t) \<and> hfields h ''last'' = Some (Numeric l)"
    then have g: "get_stats cfg now ip st =
     (Inr \<lparr>tokens_available = py_round2 (refill cfg t l now), stat_capacity = capacity cfg,
           stat_refill_rate = refill_rate cfg, last_request = Some l,
           time_since_last = Some (py_round2 (now - l)), status = ''active''\<rparr>, st)"
      by (simp add: get_stats_stored)
    have up: "capacity cfg = of_int c \<longrightarrow> py_round2 (refill cfg t l now) \<le> capacity cfg"
      using py_round2_le_of_int[of "refill cfg t l now" c] 1 by auto
    have lo: "0 \<le> t \<and> l \<le> now \<and> 0 \<le> refill_rate cfg \<and> 0 \<le> capacity cfg \<longrightarrow>
            0 \<le> py_round2 (refill cfg t l now)"
      using 3 py_round2_nonneg by blast
    from g up lo show "\<exists>s. fst (get_stats cfg now ip st) = Inr s \<and>
         tokens_available s = py_round2 (refill cfg t l now) \<and>
         (capacity cfg = of_int c \<longrightarrow> tokens_available s \<le> capacity cfg) \<and>
         (0 \<le> t \<and> l \<le> now \<and> 0 \<le> refill_rate cfg \<and> 0 \<le> capacity cfg \<longrightarrow>
            0 \<le> tokens_available s)"
      by simp
  qed
  from 1 2 3 4 show ?thesis by blast
qed

theorem token_bounds_witness:
  "refill default_bucket 9 0 1000000 \<le> capacity default_bucket
   \<and> snd (allow_request default_bucket 0 ''1.2.3.4'' empty_store) \<noteq> empty_store
   \<and> (\<exists>h' t'. hashes (snd (allow_request default_bucket 0 ''1.2.3.4'' empty_store))
                 (''bucket:'' @ ''1.2.3.4'') = Some h' \<and>
         hfields h' ''tokens'' = Some (Numeric t') \<and> 0 \<le> t' \<and>
         t' \<le> capacity default_bucket - 1)
   \<and> 0 \<le> refill default_bucket 9 0 5
   \<and> (\<exists>s. fst (get_stats default_bucket 5 ''1.2.3.4''
               (store_of ''bucket:1.2.3.4'' (bucket_hash (Numeric 9) (Numeric 0) (Some 60))))
            = Inr s \<and>
          tokens_available s \<le> capacity default_bucket \<and> 0 \<le> tokens_available s)"
proof -
  let ?h = "bucket_hash (Numeric 9) (Numeric 0) (Some 60)"
  let ?st = "store_of ''bucket:1.2.3.4'' ?h"
  have "hashes (snd (allow_request default_bucket 0 ''1.2.3.4'' empty_store)) ''bucket:1.2.3.4''
          \<noteq> hashes empty_store ''bucket:1.2.3.4''"
    by (simp add: allow_defs store_defs fixture_defs)
  then have n: "snd (allow_request default_bucket 0 ''1.2.3.4'' empty_store) \<noteq> empty_store"
    by auto
  have p: "(0::real) \<le> 9 \<and> (0::real) \<le> 5 \<and> 0 \<le> refill_rate default_bucket \<and>
           0 \<le> capacity default_bucket"
    by (simp add: default_bucket_def)
  have q: "hmget_exc ?st = None \<and> live ?st 5 (''bucket:'' @ ''1.2.3.4'') = Some ?h \<and>
    hfields ?h ''tokens'' = Some (Numeric 9) \<and> hfields ?h ''last'' = Some (Numeric 0)"
    by (simp add: live_def fixture_defs)
  have c: "capacity default_bucket = of_int 10" by (simp add: default_bucket_def)
  from token_bounds[where cfg = default_bucket and t = 9 and l = 0 and now = 1000000]
  have 1: "refill default_bucket 9 0 1000000 \<le> capacity default_bucket"
    by blast
  from token_bounds[where cfg = default_bucket and now = 0 and ip = "''1.2.3.4''"
         and st = empty_store] n
  have 2: "\<exists>h' t'. hashes (snd (allow_request default_bucket 0 ''1.2.3.4'' empty_store))
                 (''bucket:'' @ ''1.2.3.4'') = Some h' \<and>
         hfields h' ''tokens'' = Some (Numeric t') \<and> 0 \<le> t' \<and>
         t' \<le> capacity default_bucket - 1"
    by blast
  from token_bounds[where cfg = default_bucket and t = 9 and l = 0 and now = 5
         and ip = "''1.2.3.4''" and st = ?st and h = ?h and c = 10] p q c
  have 3: "0 \<le> refill default_bucket 9 0 5 \<and>
     (\<exists>s. fst (get_stats default_bucket 5 ''1.2.3.4'' ?st) = Inr s \<and>
          tokens_available s \<le> capacity default_bucket \<and> 0 \<le> tokens_available s)"
    by blast
  from 1 n 2 3 show ?thesis by blast
qed

section \<open>Full again after capacity over rate seconds\<close>

text \<open>
  C8 as stated: for every capacity \<open>C\<close>, \<^verbatim>\<open>get_stats\<close> at clock \<open>C / refill_rate\<close> after
  one \<^verbatim>\<open>allow_request\<close> at clock 0 reports exactly \<open>C\<close>, and not more than the capacity.
  Line 52 rounds the count to two decimals: with the capacity \<open>257 / 128\<close> (2.0078125)
  and the refill rate 1 the refill is the capacity, and the report is 2.01, which is
  not the capacity and is above it.
\<close>

theorem stats_fractional_capacity:
  "fst (allow_request \<lparr>capacity = 257 / 128, refill_rate = 1\<rparr> 0 ''1.2.3.4'' empty_store)
     = Inr True
   \<and> fst (get_stats \<lparr>capacity = 257 / 128, refill_rate = 1\<rparr> ((257 / 128) / 1) ''1.2.3.4''
           (snd (allow_request \<lparr>capacity = 257 / 128, refill_rate = 1\<rparr> 0 ''1.2.3.4''
                  empty_store)))
     = Inr \<lparr>tokens_available = 201 / 100, stat_capacity = 257 / 128, stat_refill_rate = 1,
            last_request = Some 0, time_since_last = Some (201 / 100), status = ''active''\<rparr>
   \<and> (201 / 100 :: real) \<noteq> 257 / 128
   \<and> (257 / 128 :: real) < 201 / 100"
  by code_simp

text \<open>
  C8 as amended: for a whole-number capacity \<open>C\<close> and a refill rate other than 0 (the
  time \<open>C / refill_rate\<close> has no meaning otherwise): after one \<^verbatim>\<open>allow_request\<close> at clock 0
  for an identity without a stored hash, on a store that answers, \<^verbatim>\<open>get_stats\<close> at clock
  \<open>C / refill_rate\<close> reports \<^verbatim>\<open>tokens_available\<close> equal to \<open>C\<close>, which is the capacity and
  not more. For \<open>C > 0\<close> the request is allowed and leaves \<open>C - 1\<close> tokens stored.
\<close>

theorem stats_after_full_refill:
  assumes "capacity cfg = of_nat C" and "refill_rate cfg \<noteq> 0" and "healthy st"
    and "live st 0 (''bucket:'' @ ip) = None"
  shows "(0 < C \<longrightarrow> fst (allow_request cfg 0 ip st) = Inr True \<and>
            stored (snd (allow_request cfg 0 ip st)) 0 (''bucket:'' @ ip) (of_nat C - 1)) \<and>
         (\<exists>s. fst (get_stats cfg (of_nat C / refill_rate cfg) ip
                     (snd (allow_request cfg 0 ip st))) = Inr s \<and>
              tokens_available s = of_nat C \<and> tokens_available s \<le> capacity cfg)"
proof -
  have hm: "hmget_exc st = None" using assms(3) by (simp add: healthy_def)
  have rr: "read_refill cfg 0 ip st = (Inr (of_nat C), st)"
    using hm assms(1,4) by (simp add: read_refill_fresh)
  let ?T = "of_nat C / refill_rate cfg"
  let ?st' = "snd (allow_request cfg 0 ip st)"
  show ?thesis
  proof (cases "C = 0")
    case True
    with rr have "read_refill cfg 0 ip st = (Inr 0, st)" by simp
    from allow_request_denied[OF this _ assms(2)] have s: "?st' = st" by simp
    from True have T: "?T = 0" by simp
    from get_stats_new[OF hm assms(4), of cfg] s T assms(1) True show ?thesis by simp
  next
    case False
    then have C: "0 < C" by simp
    then have one: "(1::real) \<le> of_nat C" by simp
    from allow_request_allowed[OF assms(3) rr one]
    have A: "fst (allow_request cfg 0 ip st) = Inr True \<and>
             stored ?st' 0 (''bucket:'' @ ip) (of_nat C - 1)" .
    from allow_request_written_store[OF assms(3) rr one] obtain h' where
      hm': "hmget_exc ?st' = None"
      and h: "hashes ?st' (''bucket:'' @ ip) = Some h'"
      and f: "hfields h' ''tokens'' = Some (Numeric (of_nat C - 1))"
             "hfields h' ''last'' = Some (Numeric 0)"
      and ttl: "ttl_at h' = Some (0 + 60)"
      by blast
    have B: "\<exists>s. fst (get_stats cfg ?T ip ?st') = Inr s \<and> tokens_available s = of_nat C"
    proof (cases "0 + 60 \<le> ?T")
      case True
      with live_later[OF h ttl, of ?T] have "live ?st' ?T (''bucket:'' @ ip) = None" by simp
      from get_stats_new[OF hm' this, of cfg] assms(1) show ?thesis by simp
    next
      case False
      with live_later[OF h ttl, of ?T] have "live ?st' ?T (''bucket:'' @ ip) = Some h'" by simp
      from get_stats_stored[OF hm' this f, of cfg] refill_full[OF assms(1) C assms(2)]
      show ?thesis by (simp add: py_round2_of_nat)
    qed
    from A B assms(1) show ?thesis by auto
  qed
qed

theorem stats_after_full_refill_witness:
  "capacity default_bucket = of_nat 10 \<and> refill_rate default_bucket \<noteq> 0 \<and>
   healthy empty_store \<and> live empty_store 0 (''bucket:'' @ ''1.2.3.4'') = None \<and>
   fst (allow_request default_bucket 0 ''1.2.3.4'' empty_store) = Inr True \<and>
   (\<exists>s. fst (get_stats default_bucket (of_nat 10 / refill_rate default_bucket) ''1.2.3.4''
               (snd (allow_request default_bucket 0 ''1.2.3.4'' empty_store))) = Inr s \<and>
        tokens_available s = of_nat 10)"
proof -
  have a: "capacity default_bucket = of_nat 10" by (simp add: default_bucket_def)
  have b: "refill_rate default_bucket \<noteq> 0" by (simp add: default_bucket_def)
  have c: "healthy empty_store" by (simp add: healthy_def empty_store_def)
  have d: "live empty_store 0 (''bucket:'' @ ''1.2.3.4'') = None"
    by (simp add: live_def empty_store_def)
  have e: "0 < (10::nat)" by simp
  from stats_after_full_refill[OF a b c d] a b c d e show ?thesis by blast
qed

end
